theory Spec2Isabelle
  imports
    Main
    "HOL-Library.Word"
    "HOL-Library.List_Lexorder"
    "HOL-Library.Multiset"
    "HOL-Library.Sublist"
begin

section \<open>Values of the host language\<close>

text \<open>
  A string of the program is a sequence of UTF-16 code units. \<open>str\<close> writes an ASCII
  literal. A string is falsy exactly when it is empty, \<open>undefined\<close> is falsy, and
  every array is truthy; an optional field is an \<open>option\<close>, \<open>None\<close> for
  \<open>undefined\<close>.
\<close>

type_synonym jsstring = "16 word list"

definition str :: "string \<Rightarrow> jsstring" where
  "str s = map (\<lambda>c. of_char c) s"

text \<open>\<^verbatim>\<open>a || b\<close> for two optional strings.\<close>

definition or_opt :: "jsstring option \<Rightarrow> jsstring option \<Rightarrow> jsstring option" where
  "or_opt a b = (case a of None \<Rightarrow> b | Some s \<Rightarrow> if s = [] then b else Some s)"

text \<open>\<^verbatim>\<open>a || d\<close> for an optional string and a string.\<close>

definition or_str :: "jsstring option \<Rightarrow> jsstring \<Rightarrow> jsstring" where
  "or_str a d = (case a of None \<Rightarrow> d | Some s \<Rightarrow> if s = [] then d else s)"

text \<open>\<^verbatim>\<open>a || d\<close> and \<^verbatim>\<open>a ?? d\<close> for an optional array: an array is never falsy.\<close>

definition or_list :: "'a list option \<Rightarrow> 'a list \<Rightarrow> 'a list" where
  "or_list a d = (case a of None \<Rightarrow> d | Some xs \<Rightarrow> xs)"

text \<open>\<^verbatim>\<open>xs.join(sep)\<close> on an array of strings.\<close>

fun join :: "jsstring \<Rightarrow> jsstring list \<Rightarrow> jsstring" where
  "join sep [] = []"
| "join sep [x] = x"
| "join sep (x # y # ys) = x @ sep @ join sep (y # ys)"

section \<open>Data model\<close>

record Note =
  note_id :: int
  title :: jsstring
  content :: jsstring
  tags :: "jsstring list option"
  updated_at :: "jsstring option"
  created_at :: "jsstring option"

record UIState =
  "notes" :: "Note list"
  loading :: bool
  error :: "jsstring option"
  selectedId :: "int option"
  editTitle :: jsstring
  editContent :: jsstring
  editTags :: jsstring
  search :: jsstring
  activeTag :: "jsstring option"

definition initialState :: UIState where
  "initialState =
     \<lparr>notes = [], loading = True, error = None, selectedId = None,
      editTitle = [], editContent = [], editTags = [], search = [], activeTag = None\<rparr>"

section \<open>Derived views\<close>

text \<open>
  \<^verbatim>\<open>filteredNotes\<close>: the guard \<^verbatim>\<open>if (state.activeTag)\<close> is a truthiness test, so the
  empty string filters nothing.
\<close>

definition filteredNotes :: "UIState \<Rightarrow> Note list" where
  "filteredNotes st =
     (case activeTag st of
        None \<Rightarrow> notes st
      | Some t \<Rightarrow>
          if t = [] then notes st
          else filter (\<lambda>n. t \<in> set (or_list (tags n) [])) (notes st))"

text \<open>
  The derivation in the words of the specification: the snapshot when no active tag is
  set, otherwise the notes whose tag sequence contains the active tag.
\<close>

definition visibleNotes_spec :: "Note list \<Rightarrow> jsstring option \<Rightarrow> Note list" where
  "visibleNotes_spec snapshot tag =
     (case tag of
        None \<Rightarrow> snapshot
      | Some t \<Rightarrow> filter (\<lambda>n. t \<in> set (or_list (tags n) [])) snapshot)"

section \<open>Selection\<close>

text \<open>The three assignments that copy a note into the edit buffer.\<close>

definition loadEditor :: "Note \<Rightarrow> UIState \<Rightarrow> UIState" where
  "loadEditor n st =
     st\<lparr>editTitle := or_str (Some (title n)) (str ''''),
        editContent := or_str (Some (content n)) (str ''''),
        editTags := join (str '', '') (or_list (tags n) [])\<rparr>"

definition selectNote :: "int \<Rightarrow> UIState \<Rightarrow> UIState" where
  "selectNote i st =
     (let st1 = st\<lparr>selectedId := Some i\<rparr> in
      case find (\<lambda>x. note_id x = i) (notes st1) of
        Some n \<Rightarrow> loadEditor n st1
      | None \<Rightarrow> st1)"

section \<open>Built-in string and array operations\<close>

text \<open>
  \<^verbatim>\<open>s.split(",")\<close> with a separator of one code unit: the pieces between the
  occurrences of the separator; a string without it is the only piece.
\<close>

function split :: "16 word \<Rightarrow> jsstring \<Rightarrow> jsstring list" where
  "split sep s =
     (case dropWhile (\<lambda>c. c \<noteq> sep) s of
        [] \<Rightarrow> [s]
      | _ # rest \<Rightarrow> takeWhile (\<lambda>c. c \<noteq> sep) s # split sep rest)"
  by pat_completeness auto
termination
proof (relation "measure (\<lambda>(sep, s). length s)")
  show "wf (measure (\<lambda>(sep, s). length s))"
    by simp
next
  fix sep :: "16 word" and s rest :: jsstring and x
  assume "dropWhile (\<lambda>c. c \<noteq> sep) s = x # rest"
  then have "length (x # rest) \<le> length s"
    by (metis length_dropWhile_le)
  then show "((sep, rest), (sep, s)) \<in> measure (\<lambda>(sep, s). length s)"
    by simp
qed

declare split.simps [simp del]

text \<open>
  The code units that \<^verbatim>\<open>trim\<close> strips: WhiteSpace and LineTerminator of the language
  standard, all of them single code units.
\<close>

definition isWhiteSpace :: "16 word \<Rightarrow> bool" where
  "isWhiteSpace c \<longleftrightarrow>
     c = 0x0009 \<or> c = 0x000A \<or> c = 0x000B \<or> c = 0x000C \<or> c = 0x000D \<or> c = 0x0020 \<or>
     c = 0x00A0 \<or> c = 0x1680 \<or> (0x2000 \<le> c \<and> c \<le> 0x200A) \<or> c = 0x2028 \<or>
     c = 0x2029 \<or> c = 0x202F \<or> c = 0x205F \<or> c = 0x3000 \<or> c = 0xFEFF"

definition trim :: "jsstring \<Rightarrow> jsstring" where
  "trim s = rev (dropWhile isWhiteSpace (rev (dropWhile isWhiteSpace s)))"

text \<open>
  \<^verbatim>\<open>xs.sort(cmp)\<close>: a stable sort; \<^verbatim>\<open>cmp(a, b) > 0\<close> puts \<open>b\<close> first, and
  elements that compare as equal keep their order.
\<close>

fun insert_by :: "('a \<Rightarrow> 'a \<Rightarrow> int) \<Rightarrow> 'a \<Rightarrow> 'a list \<Rightarrow> 'a list" where
  "insert_by cmp x [] = [x]"
| "insert_by cmp x (y # ys) = (if cmp x y \<le> 0 then x # y # ys else y # insert_by cmp x ys)"

definition js_sort :: "('a \<Rightarrow> 'a \<Rightarrow> int) \<Rightarrow> 'a list \<Rightarrow> 'a list" where
  "js_sort cmp xs = foldr (insert_by cmp) xs []"

text \<open>
  \<^verbatim>\<open>localeCompare\<close> is the platform's locale collation and a parameter of the
  model (\<open>lc\<close> below). What the model takes of it is \<open>collation\<close>: it is the
  three-way comparison of a total preorder of strings (the sign flips with the
  arguments, and the order is transitive) in which the empty string is least.
\<close>

definition collation :: "(jsstring \<Rightarrow> jsstring \<Rightarrow> int) \<Rightarrow> bool" where
  "collation lc \<longleftrightarrow>
     (\<forall>a b. (lc a b < 0) = (0 < lc b a)) \<and>
     (\<forall>a b c. lc a b \<le> 0 \<and> lc b c \<le> 0 \<longrightarrow> lc a c \<le> 0) \<and>
     (\<forall>a. lc [] a \<le> 0)"

text \<open>A list of notes in descending order of a key under a comparator.\<close>

definition descending_in ::
  "(jsstring \<Rightarrow> jsstring \<Rightarrow> int) \<Rightarrow> (Note \<Rightarrow> jsstring) \<Rightarrow> Note list \<Rightarrow> bool" where
  "descending_in lc k ns = sorted_wrt (\<lambda>a b. lc (k b) (k a) \<le> 0) ns"

text \<open>
  Two sample comparators. \<open>lexCompare\<close> is the three-way comparison by code units.
  \<open>letterCollate\<close> compares the case-folded code units first and puts the lower-case
  letter first among strings that differ in case only, as locale collation does for
  ASCII letters: it puts \<^verbatim>\<open>a\<close> before \<^verbatim>\<open>B\<close>, where the code units are in the
  opposite order.
\<close>

definition lexCompare :: "jsstring \<Rightarrow> jsstring \<Rightarrow> int" where
  "lexCompare a b = (if a < b then - 1 else if a = b then 0 else 1)"

definition foldCase :: "16 word \<Rightarrow> 16 word" where
  "foldCase c = (if 0x41 \<le> c \<and> c \<le> 0x5A then c + 0x20 else c)"

definition letterCollate :: "jsstring \<Rightarrow> jsstring \<Rightarrow> int" where
  "letterCollate a b =
     (let fa = map foldCase a; fb = map foldCase b in
      if fa < fb then - 1 else if fb < fa then 1
      else if b < a then - 1 else if a < b then 1 else 0)"

text \<open>
  A list of notes in descending order of a key by code units, the lexicographic order of
  the raw strings.
\<close>

definition descending_by :: "(Note \<Rightarrow> jsstring) \<Rightarrow> Note list \<Rightarrow> bool" where
  "descending_by k ns = sorted_wrt (\<lambda>a b. k b \<le> k a) ns"

section \<open>The remote notes client\<close>

text \<open>
  The backend is outside the program. A call of the client is recorded as the request it
  sends, and its result is an input of the model: the value of the response, or the
  thrown value, of which only the optional \<^verbatim>\<open>message\<close> is read.
\<close>

record NoteData =
  data_title :: jsstring
  data_content :: jsstring
  data_tags :: "jsstring list"

datatype request =
  ListNotes "jsstring option"
| CreateNote NoteData
| UpdateNote int NoteData
| DeleteNote int

type_synonym exn = "jsstring option"

type_synonym 'a response = "exn + 'a"

text \<open>\<^verbatim>\<open>e?.message ?? d\<close>\<close>

definition message_or :: "exn \<Rightarrow> jsstring \<Rightarrow> jsstring" where
  "message_or e d = (case e of None \<Rightarrow> d | Some m \<Rightarrow> m)"

section \<open>Refresh\<close>

definition sortKey :: "Note \<Rightarrow> jsstring" where
  "sortKey a = or_str (or_opt (updated_at a) (created_at a)) (str '''')"

definition compareNotes :: "(jsstring \<Rightarrow> jsstring \<Rightarrow> int) \<Rightarrow> Note \<Rightarrow> Note \<Rightarrow> int" where
  "compareNotes lc a b = (let ad = sortKey a; bd = sortKey b in lc bd ad)"

text \<open>The selection after the snapshot was replaced.\<close>

definition maintainSelection :: "UIState \<Rightarrow> UIState" where
  "maintainSelection st =
     (case selectedId st of
        Some sid \<Rightarrow>
          (let found = list_ex (\<lambda>n. note_id n = sid) (notes st);
               st1 = (if \<not> found \<and> length (notes st) > 0
                      then st\<lparr>selectedId := Some (note_id (notes st ! 0))\<rparr> else st);
               st2 = (if \<not> found \<and> length (notes st1) = 0
                      then st1\<lparr>selectedId := None\<rparr> else st1)
           in st2)
      | None \<Rightarrow>
          if length (notes st) > 0 then st\<lparr>selectedId := Some (note_id (notes st ! 0))\<rparr>
          else st)"

text \<open>The edit buffer for the selection.\<close>

definition loadSelected :: "UIState \<Rightarrow> UIState" where
  "loadSelected st =
     (case selectedId st of
        Some sid \<Rightarrow>
          (case find (\<lambda>n. note_id n = sid) (notes st) of
             Some sel \<Rightarrow> loadEditor sel st
           | None \<Rightarrow> st)
      | None \<Rightarrow> st\<lparr>editTitle := str '''', editContent := str '''', editTags := str ''''\<rparr>)"

text \<open>
  \<^verbatim>\<open>refresh\<close> runs in two parts around its \<^verbatim>\<open>await\<close>: \<open>refresh_start\<close> up to
  the list request, whose state the display shows while the request is pending, and
  \<open>refresh_finish\<close> from the response on.
\<close>

definition refresh_start :: "UIState \<Rightarrow> UIState" where
  "refresh_start st = st\<lparr>loading := True, error := None\<rparr>"

definition listRequest :: "UIState \<Rightarrow> request" where
  "listRequest st = ListNotes (if search st = [] then None else Some (search st))"

definition refresh_finish ::
  "(jsstring \<Rightarrow> jsstring \<Rightarrow> int) \<Rightarrow> Note list response \<Rightarrow> UIState \<Rightarrow> UIState" where
  "refresh_finish lc resp st =
     (let st1 =
        (case resp of
           Inr ns \<Rightarrow> loadSelected (maintainSelection (st\<lparr>notes := js_sort (compareNotes lc) ns\<rparr>))
         | Inl e \<Rightarrow> st\<lparr>error := Some (message_or e (str ''Unknown error''))\<rparr>)
      in st1\<lparr>loading := False\<rparr>)"

definition refresh ::
  "(jsstring \<Rightarrow> jsstring \<Rightarrow> int) \<Rightarrow> Note list response \<Rightarrow> UIState \<Rightarrow> UIState \<times> request list" where
  "refresh lc resp st =
     (let st1 = refresh_start st in (refresh_finish lc resp st1, [listRequest st1]))"

section \<open>The component and its handlers\<close>

record Component =
  state :: UIState
  saving :: bool
  deleting :: bool

definition createDefaults :: NoteData where
  "createDefaults = \<lparr>data_title = str ''Untitled'', data_content = str '''', data_tags = []\<rparr>"

definition onCreate ::
  "(jsstring \<Rightarrow> jsstring \<Rightarrow> int) \<Rightarrow> Note response \<Rightarrow> Note list response \<Rightarrow> Component
     \<Rightarrow> Component \<times> request list" where
  "onCreate lc create_resp list_resp c =
     (let c1 = c\<lparr>saving := True\<rparr>;
          (c2, reqs) =
            (case create_resp of
               Inr created \<Rightarrow>
                 (let (st1, rs) = refresh lc list_resp (state c1);
                      st2 = st1\<lparr>selectedId := Some (note_id created)\<rparr>;
                      st3 = (case find (\<lambda>x. note_id x = note_id created) (notes st2) of
                               Some n \<Rightarrow> loadEditor n st2
                             | None \<Rightarrow> st2)
                  in (c1\<lparr>state := st3\<rparr>, CreateNote createDefaults # rs))
             | Inl e \<Rightarrow>
                 (c1\<lparr>state := (state c1)\<lparr>error := Some (message_or e (str ''Failed to create note''))\<rparr>\<rparr>,
                  [CreateNote createDefaults]))
      in (c2\<lparr>saving := False\<rparr>, reqs))"

definition parseTags :: "jsstring \<Rightarrow> jsstring list" where
  "parseTags s = filter (\<lambda>p. p \<noteq> []) (map trim (split 0x2C s))"

definition onSave ::
  "(jsstring \<Rightarrow> jsstring \<Rightarrow> int) \<Rightarrow> Note response \<Rightarrow> Note list response \<Rightarrow> Component
     \<Rightarrow> Component \<times> request list" where
  "onSave lc update_resp list_resp c =
     (case selectedId (state c) of
        None \<Rightarrow> (c, [])
      | Some sid \<Rightarrow>
          (let c1 = c\<lparr>saving := True\<rparr>;
               tgs = parseTags (editTags (state c1));
               req = UpdateNote sid
                       \<lparr>data_title = editTitle (state c1), data_content = editContent (state c1),
                        data_tags = tgs\<rparr>;
               (c2, reqs) =
                 (case update_resp of
                    Inr _ \<Rightarrow>
                      (let (st1, rs) = refresh lc list_resp (state c1)
                       in (c1\<lparr>state := st1\<rparr>, req # rs))
                  | Inl e \<Rightarrow>
                      (c1\<lparr>state := (state c1)\<lparr>error := Some (message_or e (str ''Failed to save note''))\<rparr>\<rparr>,
                       [req]))
           in (c2\<lparr>saving := False\<rparr>, reqs)))"

text \<open>\<open>confirmed\<close> is the answer of the confirmation prompt.\<close>

definition onDelete ::
  "(jsstring \<Rightarrow> jsstring \<Rightarrow> int) \<Rightarrow> bool \<Rightarrow> unit response \<Rightarrow> Note list response \<Rightarrow> Component
     \<Rightarrow> Component \<times> request list" where
  "onDelete lc confirmed delete_resp list_resp c =
     (case selectedId (state c) of
        None \<Rightarrow> (c, [])
      | Some sid \<Rightarrow>
          if \<not> confirmed then (c, [])
          else
            (let c1 = c\<lparr>deleting := True\<rparr>;
                 (c2, reqs) =
                   (case delete_resp of
                      Inr _ \<Rightarrow>
                        (let st1 = (state c1)\<lparr>selectedId := None, editTitle := str '''',
                                               editContent := str '''', editTags := str ''''\<rparr>;
                             (st2, rs) = refresh lc list_resp st1
                         in (c1\<lparr>state := st2\<rparr>, DeleteNote sid # rs))
                    | Inl e \<Rightarrow>
                        (c1\<lparr>state := (state c1)\<lparr>error := Some (message_or e (str ''Failed to delete note''))\<rparr>\<rparr>,
                         [DeleteNote sid]))
             in (c2\<lparr>deleting := False\<rparr>, reqs)))"



section \<open>Vocabulary of the specification\<close>

text \<open>
  The effective timestamp in the words of the specification: \<^verbatim>\<open>updated_at\<close> if
  present, else \<^verbatim>\<open>created_at\<close>, else the empty string.
\<close>

definition effective_spec :: "Note \<Rightarrow> jsstring" where
  "effective_spec n =
     (case updated_at n of
        Some u \<Rightarrow> u
      | None \<Rightarrow> (case created_at n of Some c \<Rightarrow> c | None \<Rightarrow> []))"

text \<open>An optional string whose empty value counts as absent.\<close>

definition nonempty :: "jsstring option \<Rightarrow> jsstring option" where
  "nonempty a = (if a = Some [] then None else a)"

text \<open>The selected note: the first note of the snapshot that carries the selected id.\<close>

definition selectedNote :: "UIState \<Rightarrow> Note option" where
  "selectedNote st =
     (case selectedId st of None \<Rightarrow> None | Some i \<Rightarrow> find (\<lambda>n. note_id n = i) (notes st))"

text \<open>
  The edit buffer holds a note: its title, its content and its tags joined with a comma
  and a space (no tags when the note has no tag list).
\<close>

definition bufferShows :: "Note \<Rightarrow> UIState \<Rightarrow> bool" where
  "bufferShows n st \<longleftrightarrow>
     editTitle st = title n \<and> editContent st = content n \<and>
     editTags st = join (str '', '') (or_list (tags n) [])"

definition bufferEmpty :: "UIState \<Rightarrow> bool" where
  "bufferEmpty st \<longleftrightarrow> editTitle st = [] \<and> editContent st = [] \<and> editTags st = []"

text \<open>The update request at the head of the requests of a handler, if it sent one.\<close>

definition updateSubmitted :: "request list \<Rightarrow> (int \<times> NoteData) option" where
  "updateSubmitted rs = (case rs of UpdateNote i d # _ \<Rightarrow> Some (i, d) | _ \<Rightarrow> None)"

section \<open>Steps of the component\<close>



text \<open>
  What the remote calls of a step came to: none was made, all succeeded, or one failed,
  with the message that the handler stores for it.
\<close>

datatype outcome = NoCall | AllSucceeded | Failed jsstring



section \<open>Concrete notes and states\<close>

definition mk_note :: "int \<Rightarrow> string \<Rightarrow> string list \<Rightarrow> Note" where
  "mk_note i t ts =
     \<lparr>note_id = i, title = str t, content = str '''', tags = Some (map str ts),
      updated_at = None, created_at = None\<rparr>"

definition tagged_state :: "jsstring option \<Rightarrow> UIState" where
  "tagged_state t =
     initialState\<lparr>notes := [mk_note 1 ''A'' [''''], mk_note 2 ''B'' [''work''],
                             mk_note 3 ''C'' [''home'', ''work'']],
                   loading := False, activeTag := t\<rparr>"

definition stamped :: "int \<Rightarrow> string option \<Rightarrow> string option \<Rightarrow> Note" where
  "stamped i u c =
     \<lparr>note_id = i, title = str ''t'', content = str '''', tags = None,
      updated_at = map_option str u, created_at = map_option str c\<rparr>"

definition stamped_notes :: "Note list" where
  "stamped_notes = [stamped 1 (Some ''2019'') None, stamped 2 None None,
               stamped 3 None (Some ''2021''), stamped 4 (Some ''2019'') (Some ''2018'')]"

definition empty_stamp_notes :: "Note list" where
  "empty_stamp_notes = [stamped 1 (Some ''2019'') None, stamped 2 (Some '''') (Some ''2020'')]"

definition lettered_notes :: "Note list" where
  "lettered_notes = [stamped 1 (Some ''a'') None, stamped 2 (Some ''B'') None]"

definition one_note_state :: UIState where
  "one_note_state = initialState\<lparr>notes := [mk_note 5 ''old'' []], loading := False,
                selectedId := Some 5, editTitle := str ''old''\<rparr>"

definition tagging_component :: Component where
  "tagging_component =
     \<lparr>state = one_note_state\<lparr>editTags := str ''a, b ,, c''\<rparr>, saving = False, deleting = False\<rparr>"

definition idle :: "UIState \<Rightarrow> Component" where
  "idle st = \<lparr>state = st, saving = False, deleting = False\<rparr>"

definition one_note_component :: Component where
  "one_note_component = idle one_note_state"

definition searching_component :: Component where
  "searching_component = idle (one_note_state\<lparr>search := str ''old''\<rparr>)"


section \<open>Basic facts\<close>

lemma find_None_ids: "find (\<lambda>x. note_id x = i) ns = None \<longleftrightarrow> i \<notin> note_id ` set ns"
  by (auto simp: find_None_iff)

section \<open>Collations\<close>

lemma collation_flip: "collation lc \<Longrightarrow> (lc a b < 0) = (0 < lc b a)"
  by (simp add: collation_def)

lemma collation_trans: "collation lc \<Longrightarrow> lc a b \<le> 0 \<Longrightarrow> lc b c \<le> 0 \<Longrightarrow> lc a c \<le> 0"
  unfolding collation_def by blast

lemma collation_least: "collation lc \<Longrightarrow> lc [] a \<le> 0"
  by (simp add: collation_def)

lemma collation_total: "collation lc \<Longrightarrow> \<not> lc a b \<le> 0 \<Longrightarrow> lc b a \<le> 0"
  using collation_flip [of lc b a] by simp

lemma collation_zero_iff:
  assumes "collation lc"
  shows "lc a b = 0 \<longleftrightarrow> lc a b \<le> 0 \<and> lc b a \<le> 0"
  using collation_flip [OF assms, of a b] collation_flip [OF assms, of b a] by auto

lemma collation_same_class:
  assumes "collation lc" and "lc a k = 0" and "lc b k = 0"
  shows "lc a b = 0"
proof -
  from assms have "lc a k \<le> 0" "lc k a \<le> 0" "lc b k \<le> 0" "lc k b \<le> 0"
    by (simp_all add: collation_zero_iff)
  then have "lc a b \<le> 0" "lc b a \<le> 0"
    using assms(1) by (blast intro: collation_trans)+
  with assms(1) show ?thesis
    by (simp add: collation_zero_iff)
qed

lemma Nil_least: "[] \<le> (a :: jsstring)"
  by (cases a) simp_all

lemma collation_lexCompare: "collation lexCompare"
  unfolding collation_def
proof (intro conjI allI impI)
  fix a b :: jsstring
  show "(lexCompare a b < 0) = (0 < lexCompare b a)"
    by (auto simp: lexCompare_def)
next
  fix a b c :: jsstring
  assume "lexCompare a b \<le> 0 \<and> lexCompare b c \<le> 0"
  then have "a \<le> b" "b \<le> c"
    by (auto simp: lexCompare_def split: if_splits)
  then have "a \<le> c" by (rule order_trans)
  then show "lexCompare a c \<le> 0"
    by (auto simp: lexCompare_def)
next
  fix a :: jsstring
  show "lexCompare [] a \<le> 0"
    by (cases a) (simp_all add: lexCompare_def)
qed

lemma letterCollate_le:
  "letterCollate a b \<le> 0 \<longleftrightarrow>
     map foldCase a < map foldCase b \<or> (map foldCase a = map foldCase b \<and> b \<le> a)"
  by (auto simp: letterCollate_def Let_def)

lemma collation_letterCollate: "collation letterCollate"
  unfolding collation_def
proof (intro conjI allI impI)
  fix a b
  show "(letterCollate a b < 0) = (0 < letterCollate b a)"
    by (auto simp: letterCollate_def Let_def)
next
  fix a b c
  assume "letterCollate a b \<le> 0 \<and> letterCollate b c \<le> 0"
  then have ab: "map foldCase a < map foldCase b \<or> (map foldCase a = map foldCase b \<and> b \<le> a)"
    and bc: "map foldCase b < map foldCase c \<or> (map foldCase b = map foldCase c \<and> c \<le> b)"
    by (simp_all add: letterCollate_le)
  from ab bc
  have "map foldCase a < map foldCase c \<or> (map foldCase a = map foldCase c \<and> c \<le> a)"
    by (elim disjE conjE) (simp_all add: less_trans [of "map foldCase a" "map foldCase b"]
        order_trans [of c b a])
  then show "letterCollate a c \<le> 0"
    by (simp add: letterCollate_le)
next
  fix a
  show "letterCollate [] a \<le> 0"
    by (cases a) (simp_all add: letterCollate_le)
qed

section \<open>The stable sort\<close>

lemma mset_insert_by: "mset (insert_by cmp x ys) = add_mset x (mset ys)"
  by (induction ys) auto

lemma mset_js_sort: "mset (js_sort cmp xs) = mset xs"
  by (induction xs) (auto simp: js_sort_def mset_insert_by)

lemma set_insert_by: "set (insert_by cmp x ys) = insert x (set ys)"
  by (induction ys) auto

lemma filter_insert_by_other:
  "\<not> P x \<Longrightarrow> filter P (insert_by cmp x ys) = filter P ys"
  by (induction ys) auto

lemma compareNotes_eq: "compareNotes lc a b = lc (sortKey b) (sortKey a)"
  by (simp add: compareNotes_def)

lemma descending_in_insert_by:
  assumes "collation lc" and "descending_in lc sortKey ys"
  shows "descending_in lc sortKey (insert_by (compareNotes lc) x ys)"
  using assms(2)
proof (induction ys)
  case Nil
  then show ?case by (simp add: descending_in_def)
next
  case (Cons y ys)
  then have rest: "descending_in lc sortKey ys"
    and below: "\<forall>z\<in>set ys. lc (sortKey z) (sortKey y) \<le> 0"
    by (simp_all add: descending_in_def)
  show ?case
  proof (cases "lc (sortKey y) (sortKey x) \<le> 0")
    case True
    have "\<forall>z\<in>set ys. lc (sortKey z) (sortKey x) \<le> 0"
      using below True assms(1) by (blast intro: collation_trans)
    with True Cons.prems show ?thesis
      by (simp add: descending_in_def compareNotes_eq)
  next
    case False
    then have "lc (sortKey x) (sortKey y) \<le> 0"
      using assms(1) by (rule collation_total [rotated])
    with False below Cons.IH [OF rest] show ?thesis
      by (simp add: descending_in_def compareNotes_eq set_insert_by)
  qed
qed

lemma descending_in_js_sort:
  assumes "collation lc"
  shows "descending_in lc sortKey (js_sort (compareNotes lc) ns)"
proof (induction ns)
  case Nil
  show ?case by (simp add: js_sort_def descending_in_def)
next
  case (Cons n ns)
  from descending_in_insert_by [OF assms Cons, of n] show ?case
    by (simp add: js_sort_def)
qed

lemma class_insert_by:
  assumes "collation lc" and "lc (sortKey x) k = 0"
  shows "filter (\<lambda>n. lc (sortKey n) k = 0) (insert_by (compareNotes lc) x ys) =
           x # filter (\<lambda>n. lc (sortKey n) k = 0) ys"
proof (induction ys)
  case Nil
  from assms(2) show ?case by simp
next
  case (Cons y ys)
  show ?case
  proof (cases "lc (sortKey y) (sortKey x) \<le> 0")
    case True
    with assms(2) show ?thesis
      by (simp add: compareNotes_eq)
  next
    case False
    have "lc (sortKey y) k \<noteq> 0"
    proof
      assume "lc (sortKey y) k = 0"
      with assms have "lc (sortKey y) (sortKey x) = 0"
        by (blast intro: collation_same_class)
      with False show False by simp
    qed
    with False Cons.IH show ?thesis
      by (simp add: compareNotes_eq)
  qed
qed

lemma class_js_sort:
  assumes "collation lc"
  shows "filter (\<lambda>n. lc (sortKey n) k = 0) (js_sort (compareNotes lc) ns) =
           filter (\<lambda>n. lc (sortKey n) k = 0) ns"
proof (induction ns)
  case Nil
  show ?case by (simp add: js_sort_def)
next
  case (Cons n ns)
  show ?case
  proof (cases "lc (sortKey n) k = 0")
    case True
    from class_insert_by [OF assms True, of "js_sort (compareNotes lc) ns"] Cons True
    show ?thesis
      by (simp add: js_sort_def)
  next
    case False
    with Cons show ?thesis
      by (simp add: js_sort_def filter_insert_by_other)
  qed
qed

lemma least_class_last:
  assumes "collation lc" and "descending_in lc k ns"
  shows "ns = filter (\<lambda>n. lc (k n) [] \<noteq> 0) ns @ filter (\<lambda>n. lc (k n) [] = 0) ns"
  using assms(2)
proof (induction ns)
  case Nil
  show ?case by simp
next
  case (Cons n ns)
  then have ih: "ns = filter (\<lambda>n. lc (k n) [] \<noteq> 0) ns @ filter (\<lambda>n. lc (k n) [] = 0) ns"
    and below: "\<forall>m\<in>set ns. lc (k m) (k n) \<le> 0"
    by (simp_all add: descending_in_def)
  show ?case
  proof (cases "lc (k n) [] = 0")
    case True
    have "\<forall>m\<in>set ns. lc (k m) [] = 0"
    proof
      fix m assume "m \<in> set ns"
      with below True assms(1) have "lc (k m) [] \<le> 0"
        by (auto intro: collation_trans)
      moreover have "lc [] (k m) \<le> 0"
        using assms(1) by (rule collation_least)
      ultimately show "lc (k m) [] = 0"
        using assms(1) by (simp add: collation_zero_iff)
    qed
    then have "filter (\<lambda>n. lc (k n) [] \<noteq> 0) ns = []" "filter (\<lambda>n. lc (k n) [] = 0) ns = ns"
      by (simp_all add: filter_empty_conv filter_id_conv)
    with True show ?thesis by simp
  next
    case False
    with ih show ?thesis by simp
  qed
qed

section \<open>Visible notes\<close>

text \<open>
  C6, as stated, fails where the active tag is the empty string: the guard treats it as
  no tag, and the snapshot is returned whole although only the first note carries the
  empty tag.
\<close>

theorem filteredNotes_empty_tag_counterexample:
  "filteredNotes (tagged_state (Some (str ''''))) \<noteq>
     visibleNotes_spec (notes (tagged_state (Some (str '''')))) (activeTag (tagged_state (Some (str ''''))))"
  by (simp add: filteredNotes_def visibleNotes_spec_def tagged_state_def initialState_def
      mk_note_def str_def or_list_def)

text \<open>
  C6, amended: the visible notes are the snapshot when no active tag is set or the active
  tag is the empty string; otherwise they are exactly the notes whose tag sequence
  contains the active tag, in the order of the snapshot. The result is always a
  subsequence of the snapshot, so nothing is re-sorted.
\<close>

theorem filteredNotes_visible:
  "filteredNotes st =
     visibleNotes_spec (notes st) (if activeTag st = Some [] then None else activeTag st)
   \<and> subseq (filteredNotes st) (notes st)
   \<and> (activeTag st = None \<or> activeTag st = Some [] \<longrightarrow> filteredNotes st = notes st)
   \<and> (\<forall>t. activeTag st = Some t \<and> t \<noteq> [] \<longrightarrow>
         filteredNotes st = filter (\<lambda>n. t \<in> set (or_list (tags n) [])) (notes st))"
  by (auto simp: filteredNotes_def visibleNotes_spec_def split: option.splits)

theorem filteredNotes_visible_witness:
  "filteredNotes (tagged_state (Some (str ''work''))) = [mk_note 2 ''B'' [''work''], mk_note 3 ''C'' [''home'', ''work'']]
   \<and> filteredNotes (tagged_state None) = notes (tagged_state None)"
  using filteredNotes_visible [of "tagged_state (Some (str ''work''))"]
    filteredNotes_visible [of "tagged_state None"]
  by (simp add: tagged_state_def initialState_def mk_note_def str_def or_list_def
      visibleNotes_spec_def)

section \<open>Selecting an absent note\<close>

text \<open>
  C10: selecting an id that no note of the snapshot carries changes the selection to that
  id and nothing else: the edit buffer and every other field keep their values.
\<close>

theorem selectNote_absent:
  "i \<notin> note_id ` set (notes st) \<Longrightarrow> selectNote i st = st\<lparr>selectedId := Some i\<rparr>"
  by (simp add: selectNote_def Let_def find_None_ids [THEN iffD2])

theorem selectNote_absent_witness:
  "selectNote 9 (tagged_state None) = (tagged_state None)\<lparr>selectedId := Some 9\<rparr>
   \<and> editTitle (selectNote 9 ((tagged_state None)\<lparr>editTitle := str ''draft''\<rparr>)) = str ''draft''"
  using selectNote_absent [of 9 "tagged_state None"]
    selectNote_absent [of 9 "(tagged_state None)\<lparr>editTitle := str ''draft''\<rparr>"]
  by (simp add: tagged_state_def initialState_def mk_note_def)

section \<open>Refresh: frame and selection\<close>

lemma notes_loadEditor [simp]: "notes (loadEditor n st) = notes st"
  by (simp add: loadEditor_def)

lemma selectedId_loadEditor [simp]: "selectedId (loadEditor n st) = selectedId st"
  by (simp add: loadEditor_def)

lemma notes_maintainSelection [simp]: "notes (maintainSelection st) = notes st"
  by (simp add: maintainSelection_def Let_def split: option.splits)

lemma notes_loadSelected [simp]: "notes (loadSelected st) = notes st"
  by (simp add: loadSelected_def split: option.splits)

lemma selectedId_loadSelected [simp]: "selectedId (loadSelected st) = selectedId st"
  by (simp add: loadSelected_def split: option.splits)

lemma refresh_ok_state:
  "fst (refresh lc (Inr ns) st) =
     (loadSelected (maintainSelection (st\<lparr>loading := True, error := None,
        notes := js_sort (compareNotes lc) ns\<rparr>)))\<lparr>loading := False\<rparr>"
  by (simp add: refresh_def refresh_finish_def refresh_start_def Let_def)

lemma notes_refresh_ok: "notes (fst (refresh lc (Inr ns) st)) = js_sort (compareNotes lc) ns"
  by (simp add: refresh_ok_state)

lemma selectedId_maintainSelection:
  "selectedId (maintainSelection st) =
     (case selectedId st of
        None \<Rightarrow> (if notes st = [] then None else Some (note_id (notes st ! 0)))
      | Some i \<Rightarrow>
          if i \<in> note_id ` set (notes st) then Some i
          else if notes st = [] then None else Some (note_id (notes st ! 0)))"
  by (auto simp: maintainSelection_def Let_def list_ex_iff split: option.splits)

lemma selectedId_refresh_ok:
  "selectedId (fst (refresh lc (Inr ns) st)) =
     (case selectedId st of
        None \<Rightarrow> (if js_sort (compareNotes lc) ns = [] then None
                  else Some (note_id (js_sort (compareNotes lc) ns ! 0)))
      | Some i \<Rightarrow>
          if i \<in> note_id ` set (js_sort (compareNotes lc) ns) then Some i
          else if js_sort (compareNotes lc) ns = [] then None
          else Some (note_id (js_sort (compareNotes lc) ns ! 0)))"
  by (simp add: refresh_ok_state selectedId_maintainSelection split: option.splits)

lemma sortKey_effective:
  "sortKey n = effective_spec (n\<lparr>updated_at := nonempty (updated_at n), created_at := nonempty (created_at n)\<rparr>)"
  by (auto simp: sortKey_def effective_spec_def nonempty_def or_str_def or_opt_def str_def
      split: option.splits)

section \<open>The snapshot after a refresh\<close>

text \<open>
  C1, amended: after a successful refresh the snapshot is a permutation of the list the
  remote returned, in descending order of the sort key under \<^verbatim>\<open>localeCompare\<close>, for
  every \<^verbatim>\<open>localeCompare\<close> that is a collation: the three-way comparison of a total
  preorder of strings with the empty string least. The sort is stable: the notes whose
  keys compare as equal to any one string keep their order. The notes whose key compares
  as equal to the empty string, those without a timestamp among them, come last. The
  sort key is the effective timestamp where a timestamp that is present but empty counts
  as absent.
\<close>

theorem refresh_snapshot_sorted:
  assumes "collation lc"
  shows "mset (notes (fst (refresh lc (Inr ns) st))) = mset ns
    \<and> descending_in lc sortKey (notes (fst (refresh lc (Inr ns) st)))
    \<and> (\<forall>k. filter (\<lambda>n. lc (sortKey n) k = 0) (notes (fst (refresh lc (Inr ns) st))) =
            filter (\<lambda>n. lc (sortKey n) k = 0) ns)
    \<and> notes (fst (refresh lc (Inr ns) st)) =
        filter (\<lambda>n. lc (sortKey n) [] \<noteq> 0) (notes (fst (refresh lc (Inr ns) st))) @
        filter (\<lambda>n. lc (sortKey n) [] = 0) ns
    \<and> (\<forall>n. sortKey n = [] \<longrightarrow> lc (sortKey n) [] = 0)
    \<and> (\<forall>n. sortKey n =
          effective_spec (n\<lparr>updated_at := nonempty (updated_at n),
                            created_at := nonempty (created_at n)\<rparr>))"
proof -
  let ?snap = "notes (fst (refresh lc (Inr ns) st))"
  have snap: "?snap = js_sort (compareNotes lc) ns"
    by (rule notes_refresh_ok)
  have perm: "mset ?snap = mset ns"
    by (simp add: snap mset_js_sort)
  have desc: "descending_in lc sortKey ?snap"
    using assms by (simp add: snap descending_in_js_sort)
  have stable: "filter (\<lambda>n. lc (sortKey n) k = 0) ?snap = filter (\<lambda>n. lc (sortKey n) k = 0) ns"
    for k
    using assms by (simp add: snap class_js_sort)
  have "?snap = filter (\<lambda>n. lc (sortKey n) [] \<noteq> 0) ?snap @ filter (\<lambda>n. lc (sortKey n) [] = 0) ?snap"
    using assms desc by (rule least_class_last)
  then have last: "?snap = filter (\<lambda>n. lc (sortKey n) [] \<noteq> 0) ?snap @
      filter (\<lambda>n. lc (sortKey n) [] = 0) ns"
    by (simp only: stable)
  have "lc [] [] = 0"
    using assms by (simp add: collation_zero_iff collation_least)
  then have none: "\<forall>n. sortKey n = [] \<longrightarrow> lc (sortKey n) [] = 0"
    by simp
  from perm desc stable last none sortKey_effective show ?thesis
    by blast
qed

theorem refresh_snapshot_sorted_witness:
  "collation letterCollate
   \<and> notes (fst (refresh letterCollate (Inr stamped_notes) initialState)) =
       [stamped 3 None (Some ''2021''), stamped 1 (Some ''2019'') None,
        stamped 4 (Some ''2019'') (Some ''2018''), stamped 2 None None]
   \<and> notes (fst (refresh letterCollate (Inr lettered_notes) initialState)) =
       [stamped 2 (Some ''B'') None, stamped 1 (Some ''a'') None]
   \<and> descending_in letterCollate sortKey
        (notes (fst (refresh letterCollate (Inr stamped_notes) initialState)))"
  using refresh_snapshot_sorted [OF collation_letterCollate, of stamped_notes initialState]
  by (simp add: collation_letterCollate notes_refresh_ok js_sort_def compareNotes_def
      sortKey_def or_str_def or_opt_def letterCollate_def foldCase_def Let_def
      stamped_notes_def lettered_notes_def stamped_def str_def)

text \<open>
  C1, as stated, fails twice. For a note whose \<^verbatim>\<open>updated_at\<close> is present and empty
  the code falls through to \<^verbatim>\<open>created_at\<close>, and the snapshot is not in descending
  order of the effective timestamp as the specification defines it. And the order is
  that of the collation, not of the code units: where the collation puts \<^verbatim>\<open>a\<close>
  before \<^verbatim>\<open>B\<close>, as \<^verbatim>\<open>localeCompare\<close> does, the snapshot is not in descending
  lexicographic order of the raw strings.
\<close>

theorem refresh_order_counterexample:
  "\<not> descending_by effective_spec
        (notes (fst (refresh letterCollate (Inr empty_stamp_notes) initialState)))
   \<and> \<not> descending_by sortKey
        (notes (fst (refresh letterCollate (Inr lettered_notes) initialState)))"
  by (simp add: notes_refresh_ok js_sort_def compareNotes_def descending_by_def effective_spec_def
      sortKey_def or_str_def or_opt_def letterCollate_def foldCase_def Let_def
      empty_stamp_notes_def lettered_notes_def stamped_def str_def)

section \<open>The selection after a refresh\<close>

text \<open>
  C2: after a successful refresh, a missing selection becomes the first entry of a
  non-empty snapshot; a selected id that is absent from the new snapshot becomes the
  first entry, or no selection when the snapshot is empty; a selected id that is present
  stays.
\<close>

theorem refresh_selection:
  assumes "st' = fst (refresh lc (Inr ns) st)"
  shows "(selectedId st = None \<and> notes st' \<noteq> [] \<longrightarrow>
            selectedId st' = Some (note_id (notes st' ! 0)))
    \<and> (\<forall>i. selectedId st = Some i \<and> i \<notin> note_id ` set (notes st') \<longrightarrow>
            selectedId st' = (if notes st' = [] then None else Some (note_id (notes st' ! 0))))
    \<and> (\<forall>i. selectedId st = Some i \<and> i \<in> note_id ` set (notes st') \<longrightarrow>
            selectedId st' = Some i)"
  unfolding assms notes_refresh_ok selectedId_refresh_ok
  by (simp split: option.splits)

theorem refresh_selection_witness:
  "selectedId (fst (refresh lexCompare (Inr [mk_note 3 ''a'' [], mk_note 7 ''b'' []]) one_note_state)) = Some 3
   \<and> selectedId (fst (refresh lexCompare (Inr []) one_note_state)) = None
   \<and> selectedId (fst (refresh lexCompare (Inr [mk_note 3 ''a'' [], mk_note 5 ''b'' []]) one_note_state)) = Some 5
   \<and> selectedId (fst (refresh lexCompare (Inr [mk_note 3 ''a'' [], mk_note 7 ''b'' []]) initialState)) = Some 3"
  using refresh_selection [of _ lexCompare "[mk_note 3 ''a'' [], mk_note 7 ''b'' []]" one_note_state, OF refl]
    refresh_selection [of _ lexCompare "[]" one_note_state, OF refl]
    refresh_selection [of _ lexCompare "[mk_note 3 ''a'' [], mk_note 5 ''b'' []]" one_note_state, OF refl]
    refresh_selection [of _ lexCompare "[mk_note 3 ''a'' [], mk_note 7 ''b'' []]" initialState, OF refl]
  by (simp add: notes_refresh_ok js_sort_def compareNotes_def sortKey_def or_str_def or_opt_def
      lexCompare_def one_note_state_def initialState_def mk_note_def str_def)

section \<open>The edit buffer\<close>

lemma find_present:
  "i \<in> note_id ` set ns \<Longrightarrow> \<exists>n. find (\<lambda>x. note_id x = i) ns = Some n \<and> note_id n = i"
  by (induction ns) auto

lemma bufferShows_loadEditor: "bufferShows n (loadEditor n st)"
  by (simp add: bufferShows_def loadEditor_def or_str_def str_def)

lemma selectNote_present:
  assumes "find (\<lambda>x. note_id x = i) (notes st) = Some n"
  shows "selectNote i st = loadEditor n (st\<lparr>selectedId := Some i\<rparr>)"
  using assms by (simp add: selectNote_def Let_def)

lemma loadSelected_shows:
  "case selectedId st of
     None \<Rightarrow> bufferEmpty (loadSelected st)
   | Some i \<Rightarrow>
       (i \<in> note_id ` set (notes st) \<longrightarrow>
         (\<exists>n. selectedNote (loadSelected st) = Some n \<and> note_id n = i \<and> bufferShows n (loadSelected st)))"
proof (cases "selectedId st")
  case None
  then show ?thesis
    by (simp add: loadSelected_def bufferEmpty_def str_def)
next
  case (Some i)
  show ?thesis
  proof (cases "i \<in> note_id ` set (notes st)")
    case True
    then obtain n where n: "find (\<lambda>x. note_id x = i) (notes st) = Some n" "note_id n = i"
      using find_present by blast
    with Some have "loadSelected st = loadEditor n st"
      by (simp add: loadSelected_def)
    with Some n show ?thesis
      by (simp add: selectedNote_def bufferShows_loadEditor)
  next
    case False
    with Some show ?thesis by simp
  qed
qed

lemma maintainSelection_present:
  "case selectedId (maintainSelection st) of
     None \<Rightarrow> True
   | Some i \<Rightarrow> i \<in> note_id ` set (notes (maintainSelection st))"
  by (auto simp: selectedId_maintainSelection split: option.splits)

lemma loading_irrelevant [simp]:
  "selectedNote (st\<lparr>loading := b\<rparr>) = selectedNote st"
  "bufferShows n (st\<lparr>loading := b\<rparr>) = bufferShows n st"
  "bufferEmpty (st\<lparr>loading := b\<rparr>) = bufferEmpty st"
  by (simp_all add: selectedNote_def bufferShows_def bufferEmpty_def split: option.splits)

lemma selectNote_shows:
  assumes "i \<in> note_id ` set (notes st)"
  shows "\<exists>n. selectedNote (selectNote i st) = Some n \<and> note_id n = i \<and>
             selectedId (selectNote i st) = Some i \<and> bufferShows n (selectNote i st)"
proof -
  from assms obtain n where n: "find (\<lambda>x. note_id x = i) (notes st) = Some n" "note_id n = i"
    using find_present by blast
  then have "selectNote i st = loadEditor n (st\<lparr>selectedId := Some i\<rparr>)"
    by (simp add: selectNote_present)
  with n show ?thesis
    by (simp add: selectedNote_def bufferShows_loadEditor)
qed

lemma refresh_shows:
  "case selectedId (fst (refresh lc (Inr ns) st)) of
     None \<Rightarrow> bufferEmpty (fst (refresh lc (Inr ns) st))
   | Some j \<Rightarrow>
       (\<exists>n. selectedNote (fst (refresh lc (Inr ns) st)) = Some n \<and> note_id n = j \<and>
            bufferShows n (fst (refresh lc (Inr ns) st)))"
proof -
  define m where "m = maintainSelection (st\<lparr>loading := True, error := None,
        notes := js_sort (compareNotes lc) ns\<rparr>)"
  have r: "fst (refresh lc (Inr ns) st) = (loadSelected m)\<lparr>loading := False\<rparr>"
    by (simp add: refresh_ok_state m_def)
  show ?thesis
  proof (cases "selectedId m")
    case None
    with loadSelected_shows [of m] show ?thesis
      by (simp add: r)
  next
    case (Some j)
    with maintainSelection_present [of "st\<lparr>loading := True, error := None,
        notes := js_sort (compareNotes lc) ns\<rparr>"]
    have "j \<in> note_id ` set (notes m)"
      by (simp add: m_def)
    with Some loadSelected_shows [of m] show ?thesis
      by (simp add: r)
  qed
qed

text \<open>
  C3: after \<open>selectNote i\<close> with \<open>i\<close> in the snapshot, and after every successful
  refresh, the edit buffer holds the title, the content and the comma-space joined tags of
  the selected note; with no selection after a successful refresh the three fields are
  empty.
\<close>

theorem edit_buffer_follows_selection:
  "(i \<in> note_id ` set (notes st) \<longrightarrow>
      (\<exists>n. selectedNote (selectNote i st) = Some n \<and> note_id n = i \<and>
           selectedId (selectNote i st) = Some i \<and> bufferShows n (selectNote i st)))
   \<and> (case selectedId (fst (refresh lc (Inr ns) st)) of
         None \<Rightarrow> bufferEmpty (fst (refresh lc (Inr ns) st))
       | Some j \<Rightarrow>
           (\<exists>n. selectedNote (fst (refresh lc (Inr ns) st)) = Some n \<and> note_id n = j \<and>
                bufferShows n (fst (refresh lc (Inr ns) st))))"
  using selectNote_shows [of i st] refresh_shows [of lc ns st] by blast

theorem edit_buffer_follows_selection_witness:
  "editTags (selectNote 3 (tagged_state None)) = str ''home, work''
   \<and> editTitle (selectNote 3 (tagged_state None)) = str ''C''
   \<and> editTitle (fst (refresh lexCompare (Inr [mk_note 3 ''a'' [''x'', ''y''], mk_note 7 ''b'' []]) one_note_state)) = str ''a''
   \<and> editTags (fst (refresh lexCompare (Inr [mk_note 3 ''a'' [''x'', ''y''], mk_note 7 ''b'' []]) one_note_state)) = str ''x, y''
   \<and> bufferEmpty (fst (refresh lexCompare (Inr []) one_note_state))"
  using edit_buffer_follows_selection [of 3 "tagged_state None" lexCompare "[mk_note 3 ''a'' [''x'', ''y''], mk_note 7 ''b'' []]"]
    edit_buffer_follows_selection [of 3 "tagged_state None" lexCompare "[]"]
    edit_buffer_follows_selection [of 3 one_note_state lexCompare "[mk_note 3 ''a'' [''x'', ''y''], mk_note 7 ''b'' []]"]
    edit_buffer_follows_selection [of 3 one_note_state lexCompare "[]"]
  by (simp add: refresh_ok_state js_sort_def compareNotes_def sortKey_def or_str_def or_opt_def
      or_list_def lexCompare_def one_note_state_def tagged_state_def initialState_def mk_note_def str_def
      selectNote_def loadEditor_def loadSelected_def maintainSelection_def bufferEmpty_def
      bufferShows_def selectedNote_def)

section \<open>Splitting and trimming\<close>

lemma split_not_Nil: "split sep s \<noteq> []"
  by (subst split.simps) (simp split: list.splits)

lemma split_pieces_free: "p \<in> set (split sep s) \<Longrightarrow> sep \<notin> set p"
proof (induction sep s rule: split.induct)
  case (1 sep s)
  show ?case
  proof (cases "dropWhile (\<lambda>c. c \<noteq> sep) s")
    case Nil
    with "1.prems" have "p = s"
      by (subst (asm) split.simps) simp
    moreover from Nil have "sep \<notin> set s"
      by (auto simp: dropWhile_eq_Nil_conv)
    ultimately show ?thesis by simp
  next
    case (Cons x rest)
    with "1.prems" have "p = takeWhile (\<lambda>c. c \<noteq> sep) s \<or> p \<in> set (split sep rest)"
      by (subst (asm) split.simps) auto
    then show ?thesis
    proof
      assume "p = takeWhile (\<lambda>c. c \<noteq> sep) s"
      then show ?thesis
        by (auto dest: set_takeWhileD)
    next
      assume "p \<in> set (split sep rest)"
      with Cons "1.IH" show ?thesis by blast
    qed
  qed
qed

lemma join_Cons: "ps \<noteq> [] \<Longrightarrow> join sep (p # ps) = p @ sep @ join sep ps"
  by (cases ps) simp_all

lemma join_split: "join [sep] (split sep s) = s"
proof (induction sep s rule: split.induct)
  case (1 sep s)
  show ?case
  proof (cases "dropWhile (\<lambda>c. c \<noteq> sep) s")
    case Nil
    have "split sep s = [s]"
      by (subst split.simps) (simp only: Nil list.case)
    then show ?thesis by simp
  next
    case (Cons x rest)
    have sp: "split sep s = takeWhile (\<lambda>c. c \<noteq> sep) s # split sep rest"
      by (subst split.simps) (simp only: Cons list.case)
    have "\<not> x \<noteq> sep"
      using hd_dropWhile [of "\<lambda>c. c \<noteq> sep" s] Cons by simp
    then have x: "x = sep"
      by simp
    have ih: "join [sep] (split sep rest) = rest"
      using Cons "1.IH" by simp
    have "join [sep] (split sep s) =
            takeWhile (\<lambda>c. c \<noteq> sep) s @ [sep] @ join [sep] (split sep rest)"
      by (simp add: sp join_Cons split_not_Nil)
    also have "\<dots> = takeWhile (\<lambda>c. c \<noteq> sep) s @ dropWhile (\<lambda>c. c \<noteq> sep) s"
      by (simp only: ih Cons x append_Cons append_Nil)
    also have "\<dots> = s"
      by (rule takeWhile_dropWhile_id)
    finally show ?thesis .
  qed
qed

lemma trim_decomposition:
  "\<exists>a b. s = a @ trim s @ b \<and> list_all isWhiteSpace a \<and> list_all isWhiteSpace b"
proof -
  let ?r = "dropWhile isWhiteSpace s"
  let ?a = "takeWhile isWhiteSpace s"
  let ?b = "rev (takeWhile isWhiteSpace (rev ?r))"
  have "rev ?r = takeWhile isWhiteSpace (rev ?r) @ dropWhile isWhiteSpace (rev ?r)"
    by simp
  then have "?r = trim s @ ?b"
    unfolding trim_def by (metis rev_append rev_rev_ident)
  then have "s = ?a @ trim s @ ?b"
    by (metis takeWhile_dropWhile_id)
  moreover have "list_all isWhiteSpace ?a" "list_all isWhiteSpace ?b"
    by (auto simp: list_all_iff dest: set_takeWhileD)
  ultimately show ?thesis by blast
qed

lemma trim_ends:
  assumes "trim s \<noteq> []"
  shows "\<not> isWhiteSpace (hd (trim s)) \<and> \<not> isWhiteSpace (last (trim s))"
proof -
  let ?r = "dropWhile isWhiteSpace s"
  let ?d = "dropWhile isWhiteSpace (rev ?r)"
  from assms have d: "?d \<noteq> []"
    by (simp add: trim_def)
  then have "\<not> isWhiteSpace (hd ?d)"
    by (rule hd_dropWhile)
  with d have l: "\<not> isWhiteSpace (last (trim s))"
    by (simp add: trim_def last_rev)
  have r: "?r \<noteq> []"
  proof
    assume e: "?r = []"
    have "?d = []" by (simp only: e rev.simps dropWhile.simps)
    with d show False by simp
  qed
  then have hr: "\<not> isWhiteSpace (hd ?r)"
    by (rule hd_dropWhile)
  have "rev ?r = takeWhile isWhiteSpace (rev ?r) @ ?d"
    by simp
  then have "?r = trim s @ rev (takeWhile isWhiteSpace (rev ?r))"
    unfolding trim_def by (metis rev_append rev_rev_ident)
  with assms have "hd ?r = hd (trim s)"
    by (metis hd_append2)
  with hr l show ?thesis by simp
qed

lemma split_Nil: "split sep [] = [[]]"
  by (subst split.simps) simp

lemma split_Cons:
  "split sep (x # xs) =
     (if x = sep then [] # split sep xs
      else (x # hd (split sep xs)) # tl (split sep xs))"
proof (cases "x = sep")
  case True
  then show ?thesis
    by (subst split.simps) simp
next
  case False
  show ?thesis
  proof (cases "dropWhile (\<lambda>c. c \<noteq> sep) xs")
    case Nil
    have "split sep xs = [xs]"
      by (subst split.simps) (simp only: Nil list.case)
    moreover have "dropWhile (\<lambda>c. c \<noteq> sep) (x # xs) = []"
      using False Nil by simp
    then have "split sep (x # xs) = [x # xs]"
      by (subst split.simps) (simp only: list.case)
    ultimately show ?thesis
      using False by simp
  next
    case (Cons y rest)
    have "split sep xs = takeWhile (\<lambda>c. c \<noteq> sep) xs # split sep rest"
      by (subst split.simps) (simp only: Cons list.case)
    moreover have "dropWhile (\<lambda>c. c \<noteq> sep) (x # xs) = y # rest"
      using False Cons by simp
    then have "split sep (x # xs) = takeWhile (\<lambda>c. c \<noteq> sep) (x # xs) # split sep rest"
      by (subst split.simps) (simp only: list.case)
    ultimately show ?thesis
      using False by simp
  qed
qed

lemma parseTags_example: "parseTags (str ''a, b ,, c'') = [str ''a'', str ''b'', str ''c'']"
  by (simp add: parseTags_def split_Nil split_Cons trim_def isWhiteSpace_def str_def)

lemma parseTags_blank: "parseTags (str '' , '') = []"
  by (simp add: parseTags_def split_Nil split_Cons trim_def isWhiteSpace_def str_def)

lemma onSave_update:
  assumes "selectedId (state c) = Some i"
  shows "updateSubmitted (snd (onSave lc ur lr c)) =
           Some (i, \<lparr>data_title = editTitle (state c), data_content = editContent (state c),
                     data_tags = parseTags (editTags (state c))\<rparr>)"
  using assms
  by (cases ur) (simp_all add: onSave_def Let_def updateSubmitted_def split: prod.splits)

section \<open>The tags a save submits\<close>

text \<open>
  C5: with a note selected, \<open>onSave\<close> submits an update of that note whose title and
  content are the edit buffer's and whose tags are the pieces of the buffer's tag string
  between its commas, each stripped of whitespace at both ends, without the empty ones.
  The pieces joined with commas give the tag string back and none holds a comma; a
  trimmed piece is the piece without a whitespace prefix and suffix and does not start
  or end with whitespace. In particular the tag string \<^verbatim>\<open>a, b ,, c\<close> submits the tags
  \<^verbatim>\<open>a\<close>, \<^verbatim>\<open>b\<close>, \<^verbatim>\<open>c\<close>.
\<close>

theorem onSave_submits_tags:
  assumes "selectedId (state c) = Some i"
  shows "updateSubmitted (snd (onSave lc ur lr c)) =
           Some (i, \<lparr>data_title = editTitle (state c), data_content = editContent (state c),
                     data_tags = filter (\<lambda>p. p \<noteq> [])
                                   (map trim (split 0x2C (editTags (state c))))\<rparr>)
    \<and> join [0x2C] (split 0x2C (editTags (state c))) = editTags (state c)
    \<and> (\<forall>p\<in>set (split 0x2C (editTags (state c))). 0x2C \<notin> set p)
    \<and> (\<forall>p. \<exists>a b. p = a @ trim p @ b \<and> list_all isWhiteSpace a \<and> list_all isWhiteSpace b)
    \<and> (\<forall>p. trim p \<noteq> [] \<longrightarrow> \<not> isWhiteSpace (hd (trim p)) \<and> \<not> isWhiteSpace (last (trim p)))
    \<and> (editTags (state c) = str ''a, b ,, c'' \<longrightarrow>
          map_option (\<lambda>r. data_tags (snd r)) (updateSubmitted (snd (onSave lc ur lr c))) =
            Some [str ''a'', str ''b'', str ''c''])"
proof -
  have sub: "updateSubmitted (snd (onSave lc ur lr c)) =
           Some (i, \<lparr>data_title = editTitle (state c), data_content = editContent (state c),
                     data_tags = parseTags (editTags (state c))\<rparr>)"
    using assms by (rule onSave_update)
  have ex: "editTags (state c) = str ''a, b ,, c'' \<longrightarrow>
          map_option (\<lambda>r. data_tags (snd r)) (updateSubmitted (snd (onSave lc ur lr c))) =
            Some [str ''a'', str ''b'', str ''c'']"
    by (simp add: sub parseTags_example)
  have pieces: "\<forall>p\<in>set (split 0x2C (editTags (state c))). 0x2C \<notin> set p"
    using split_pieces_free by blast
  have ends: "\<forall>p. trim p \<noteq> [] \<longrightarrow> \<not> isWhiteSpace (hd (trim p)) \<and> \<not> isWhiteSpace (last (trim p))"
    using trim_ends by blast
  from sub ex pieces ends join_split trim_decomposition show ?thesis
    unfolding parseTags_def by blast
qed

theorem onSave_submits_tags_witness:
  "updateSubmitted (snd (onSave lexCompare (Inr (mk_note 5 ''old'' [])) (Inr []) tagging_component)) =
     Some (5, \<lparr>data_title = str ''old'', data_content = [],
               data_tags = [str ''a'', str ''b'', str ''c'']\<rparr>)"
proof -
  have sel: "selectedId (state tagging_component) = Some 5"
    by (simp add: tagging_component_def one_note_state_def initialState_def)
  have tg: "editTags (state tagging_component) = str ''a, b ,, c''"
    by (simp add: tagging_component_def)
  have f: "editTitle (state tagging_component) = str ''old''" "editContent (state tagging_component) = []"
    by (simp_all add: tagging_component_def one_note_state_def initialState_def)
  from onSave_submits_tags [OF sel, of lexCompare "Inr (mk_note 5 ''old'' [])" "Inr []"]
  show ?thesis
    by (simp add: tg f parseTags_example [unfolded parseTags_def])
qed

section \<open>The handlers, case by case\<close>

lemma refresh_failed:
  "refresh lc (Inl e) st =
     (st\<lparr>error := Some (message_or e (str ''Unknown error'')), loading := False\<rparr>, [listRequest st])"
  by (simp add: refresh_def refresh_finish_def refresh_start_def listRequest_def Let_def)

lemma onDelete_noop:
  "selectedId (state c) = None \<or> \<not> ok \<Longrightarrow> onDelete lc ok dr lr c = (c, [])"
  by (auto simp: onDelete_def split: option.splits)

lemma onDelete_confirmed:
  assumes "selectedId (state c) = Some i"
  shows "onDelete lc True (Inr u) lr c =
     (c\<lparr>state := fst (refresh lc lr ((state c)\<lparr>selectedId := None, editTitle := [],
                                        editContent := [], editTags := []\<rparr>)),
        deleting := False\<rparr>,
      DeleteNote i # snd (refresh lc lr ((state c)\<lparr>selectedId := None, editTitle := [],
                                        editContent := [], editTags := []\<rparr>)))"
  using assms by (simp add: onDelete_def Let_def str_def split: prod.splits)

lemma onDelete_failed:
  assumes "selectedId (state c) = Some i"
  shows "onDelete lc True (Inl e) lr c =
     (c\<lparr>state := (state c)\<lparr>error := Some (message_or e (str ''Failed to delete note''))\<rparr>,
        deleting := False\<rparr>,
      [DeleteNote i])"
  using assms by (simp add: onDelete_def Let_def)

lemma refresh_empty_list:
  "selectedId st = None \<Longrightarrow>
   notes (fst (refresh lc (Inr []) st)) = [] \<and> selectedId (fst (refresh lc (Inr []) st)) = None \<and>
   bufferEmpty (fst (refresh lc (Inr []) st))"
  by (simp add: refresh_ok_state js_sort_def maintainSelection_def loadSelected_def
      bufferEmpty_def str_def)

lemma js_sort_not_Nil: "ns \<noteq> [] \<Longrightarrow> js_sort cmp ns \<noteq> []"
  by (metis mset_js_sort mset_zero_iff)

lemma refresh_unselected:
  assumes "selectedId st = None" and "ns \<noteq> []"
  shows "notes (fst (refresh lc (Inr ns) st)) \<noteq> [] \<and>
         selectedId (fst (refresh lc (Inr ns) st)) =
           Some (note_id (notes (fst (refresh lc (Inr ns) st)) ! 0))"
  using assms by (simp add: notes_refresh_ok selectedId_refresh_ok js_sort_not_Nil)

section \<open>Delete\<close>

text \<open>
  C8, amended: \<open>onDelete\<close> changes nothing and sends nothing when no note is selected or the
  confirmation is refused. With a note selected and the confirmation given it sends the
  delete request for the selected id; when that succeeds it clears the selection and the
  edit buffer and refreshes. In particular, when the snapshot holds only the selected note
  and the list call of the refresh returns the snapshot without it, that is no notes, the
  result has an empty snapshot, no selection and an empty edit buffer; when the list call
  returns notes, the result has a non-empty snapshot and its first entry selected.
\<close>

theorem onDelete_effect:
  "(selectedId (state c) = None \<longrightarrow> onDelete lc ok dr lr c = (c, []))
   \<and> (\<not> ok \<longrightarrow> onDelete lc ok dr lr c = (c, []))
   \<and> (\<forall>i. selectedId (state c) = Some i \<and> ok \<longrightarrow>
         (\<exists>rs. snd (onDelete lc ok dr lr c) = DeleteNote i # rs))
   \<and> (\<forall>i u. selectedId (state c) = Some i \<and> ok \<and> dr = Inr u \<longrightarrow>
         onDelete lc ok dr lr c =
           (c\<lparr>state := fst (refresh lc lr ((state c)\<lparr>selectedId := None, editTitle := [],
                                              editContent := [], editTags := []\<rparr>)),
              deleting := False\<rparr>,
            DeleteNote i # snd (refresh lc lr ((state c)\<lparr>selectedId := None, editTitle := [],
                                              editContent := [], editTags := []\<rparr>))))
   \<and> (\<forall>n u. notes (state c) = [n] \<and> selectedId (state c) = Some (note_id n) \<and> ok \<and> dr = Inr u \<and>
          lr = Inr (filter (\<lambda>m. note_id m \<noteq> note_id n) (notes (state c))) \<longrightarrow>
         notes (state (fst (onDelete lc ok dr lr c))) = [] \<and>
         selectedId (state (fst (onDelete lc ok dr lr c))) = None \<and>
         bufferEmpty (state (fst (onDelete lc ok dr lr c))))
   \<and> (\<forall>i u ns. selectedId (state c) = Some i \<and> ok \<and> dr = Inr u \<and> lr = Inr ns \<and> ns \<noteq> [] \<longrightarrow>
         notes (state (fst (onDelete lc ok dr lr c))) \<noteq> [] \<and>
         selectedId (state (fst (onDelete lc ok dr lr c))) =
           Some (note_id (notes (state (fst (onDelete lc ok dr lr c))) ! 0)))"
proof -
  have a: "selectedId (state c) = None \<longrightarrow> onDelete lc ok dr lr c = (c, [])"
    by (simp add: onDelete_noop)
  have b: "\<not> ok \<longrightarrow> onDelete lc ok dr lr c = (c, [])"
    by (simp add: onDelete_noop)
  have d: "\<exists>rs. snd (onDelete lc ok dr lr c) = DeleteNote i # rs"
    if "selectedId (state c) = Some i" "ok" for i
    using that by (cases dr) (simp_all add: onDelete_failed onDelete_confirmed)
  have e: "onDelete lc ok dr lr c =
           (c\<lparr>state := fst (refresh lc lr ((state c)\<lparr>selectedId := None, editTitle := [],
                                              editContent := [], editTags := []\<rparr>)),
              deleting := False\<rparr>,
            DeleteNote i # snd (refresh lc lr ((state c)\<lparr>selectedId := None, editTitle := [],
                                              editContent := [], editTags := []\<rparr>)))"
    if "selectedId (state c) = Some i" "ok" "dr = Inr u" for i u
    using that by (simp add: onDelete_confirmed)
  have f: "notes (state (fst (onDelete lc ok dr lr c))) = [] \<and>
         selectedId (state (fst (onDelete lc ok dr lr c))) = None \<and>
         bufferEmpty (state (fst (onDelete lc ok dr lr c)))"
    if "notes (state c) = [n]" "selectedId (state c) = Some (note_id n)" "ok" "dr = Inr u"
       "lr = Inr (filter (\<lambda>m. note_id m \<noteq> note_id n) (notes (state c)))" for n u
  proof -
    from that have "lr = Inr []" by simp
    with that show ?thesis
      by (simp add: onDelete_confirmed refresh_empty_list)
  qed
  have g: "notes (state (fst (onDelete lc ok dr lr c))) \<noteq> [] \<and>
         selectedId (state (fst (onDelete lc ok dr lr c))) =
           Some (note_id (notes (state (fst (onDelete lc ok dr lr c))) ! 0))"
    if "selectedId (state c) = Some i" "ok" "dr = Inr u" "lr = Inr ns" "ns \<noteq> []" for i u ns
    using that refresh_unselected [of "(state c)\<lparr>selectedId := None, editTitle := [],
        editContent := [], editTags := []\<rparr>" ns lc]
    by (simp add: onDelete_confirmed)
  show ?thesis
  proof ((intro conjI allI impI; (elim conjE)?), goal_cases)
    case 1
    with a show ?case by simp
  next
    case 2
    with b show ?case by simp
  next
    case (3 i)
    then show ?case by (rule d)
  next
    case (4 i u)
    then show ?case by (rule e)
  next
    case (5 n u)
    from f [OF 5] show ?case by simp
  next
    case (6 n u)
    from f [OF 6] show ?case by simp
  next
    case (7 n u)
    from f [OF 7] show ?case by simp
  next
    case (8 i u ns)
    from g [OF 8] show ?case by simp
  next
    case (9 i u ns)
    from g [OF 9] show ?case by simp
  qed
qed

theorem onDelete_effect_witness:
  "notes (state (fst (onDelete lexCompare True (Inr ()) (Inr []) one_note_component))) = []
   \<and> selectedId (state (fst (onDelete lexCompare True (Inr ()) (Inr []) one_note_component))) = None
   \<and> bufferEmpty (state (fst (onDelete lexCompare True (Inr ()) (Inr []) one_note_component)))
   \<and> snd (onDelete lexCompare True (Inr ()) (Inr []) one_note_component) = [DeleteNote 5, ListNotes None]
   \<and> onDelete lexCompare False (Inr ()) (Inr []) one_note_component = (one_note_component, [])"
proof -
  have h: "notes (state one_note_component) = [mk_note 5 ''old'' []]"
    "selectedId (state one_note_component) = Some (note_id (mk_note 5 ''old'' []))"
    "(Inr [] :: Note list response) =
       Inr (filter (\<lambda>m. note_id m \<noteq> note_id (mk_note 5 ''old'' [])) (notes (state one_note_component)))"
    by (simp_all add: one_note_component_def idle_def one_note_state_def mk_note_def)
  have sel: "selectedId (state one_note_component) = Some 5"
    by (simp add: one_note_component_def idle_def one_note_state_def)
  have sr: "search (state one_note_component) = []"
    by (simp add: one_note_component_def idle_def one_note_state_def initialState_def)
  note t = onDelete_effect [of one_note_component lexCompare True "Inr ()" "Inr []"]
  from t h have a: "notes (state (fst (onDelete lexCompare True (Inr ()) (Inr []) one_note_component))) = []
    \<and> selectedId (state (fst (onDelete lexCompare True (Inr ()) (Inr []) one_note_component))) = None
    \<and> bufferEmpty (state (fst (onDelete lexCompare True (Inr ()) (Inr []) one_note_component)))"
    by blast
  have b: "snd (onDelete lexCompare True (Inr ()) (Inr []) one_note_component) = [DeleteNote 5, ListNotes None]"
    by (simp add: onDelete_confirmed [OF sel] refresh_def refresh_start_def listRequest_def sr)
  from onDelete_effect [of one_note_component lexCompare False "Inr ()" "Inr []"]
  have c: "onDelete lexCompare False (Inr ()) (Inr []) one_note_component = (one_note_component, [])"
    by blast
  from a b c show ?thesis
    by simp
qed

text \<open>
  C8, as stated, fails in its last part: the snapshot holds only the selected note, here
  because it came from a search whose text is no longer in the search box, the delete
  succeeds, and the list call returns two other notes. The result has that snapshot and
  its first entry selected.
\<close>

theorem onDelete_listed_counterexample:
  "notes (state one_note_component) = [mk_note 5 ''old'' []]
   \<and> selectedId (state one_note_component) = Some 5
   \<and> notes (state (fst (onDelete lexCompare True (Inr ())
        (Inr [mk_note 3 ''a'' [], mk_note 7 ''b'' []]) one_note_component))) =
       [mk_note 3 ''a'' [], mk_note 7 ''b'' []]
   \<and> selectedId (state (fst (onDelete lexCompare True (Inr ())
        (Inr [mk_note 3 ''a'' [], mk_note 7 ''b'' []]) one_note_component))) = Some 3"
proof -
  have sel: "selectedId (state one_note_component) = Some 5"
    by (simp add: one_note_component_def idle_def one_note_state_def)
  have snap: "notes (state one_note_component) = [mk_note 5 ''old'' []]"
    by (simp add: one_note_component_def idle_def one_note_state_def)
  have "notes (state (fst (onDelete lexCompare True (Inr ())
        (Inr [mk_note 3 ''a'' [], mk_note 7 ''b'' []]) one_note_component))) =
       [mk_note 3 ''a'' [], mk_note 7 ''b'' []]
     \<and> selectedId (state (fst (onDelete lexCompare True (Inr ())
        (Inr [mk_note 3 ''a'' [], mk_note 7 ''b'' []]) one_note_component))) = Some 3"
    by (simp add: onDelete_confirmed [OF sel] notes_refresh_ok selectedId_refresh_ok js_sort_def
        compareNotes_def sortKey_def or_str_def or_opt_def lexCompare_def mk_note_def str_def)
  with sel snap show ?thesis
    by simp
qed

lemma error_loadEditor [simp]: "error (loadEditor n st) = error st"
  by (simp add: loadEditor_def)

lemma error_selectNote [simp]: "error (selectNote i st) = error st"
  by (simp add: selectNote_def Let_def split: option.splits)

lemma notes_selectNote [simp]: "notes (selectNote i st) = notes st"
  by (simp add: selectNote_def Let_def split: option.splits)

lemma selectedId_selectNote [simp]: "selectedId (selectNote i st) = Some i"
  by (simp add: selectNote_def Let_def split: option.splits)

lemma error_loadSelected [simp]: "error (loadSelected st) = error st"
  by (simp add: loadSelected_def split: option.splits)

lemma error_maintainSelection [simp]: "error (maintainSelection st) = error st"
  by (simp add: maintainSelection_def Let_def split: option.splits)


lemma js_sort_single: "js_sort cmp [x] = [x]"
  by (simp add: js_sort_def)

lemma set_js_sort: "set (js_sort cmp xs) = set xs"
  by (metis mset_js_sort set_mset_mset)

lemma onCreate_created:
  "onCreate lc (Inr created) lr c =
     (c\<lparr>state := selectNote (note_id created) (fst (refresh lc lr (state c))), saving := False\<rparr>,
      CreateNote createDefaults # snd (refresh lc lr (state c)))"
  by (simp add: onCreate_def selectNote_def Let_def case_prod_beta split: option.splits)

lemma onCreate_failed:
  "onCreate lc (Inl e) lr c =
     (c\<lparr>state := (state c)\<lparr>error := Some (message_or e (str ''Failed to create note''))\<rparr>,
        saving := False\<rparr>,
      [CreateNote createDefaults])"
  by (simp add: onCreate_def Let_def)

section \<open>Create\<close>

text \<open>
  C7, amended: when the remote create succeeds, \<open>onCreate\<close> has sent the create
  request with the fixed defaults (title \<^verbatim>\<open>Untitled\<close>, empty content, no tags), then
  refreshed, and then selected the id of the created note. The edit buffer is reloaded
  from that note when the refreshed snapshot holds it. In particular, when the remote
  lists exactly the created note, the snapshot holds that one note, it is selected and the
  edit buffer shows it: the title \<^verbatim>\<open>Untitled\<close>, empty content and an empty tag string
  when the remote stored the defaults.
\<close>

theorem onCreate_effect:
  assumes "cr = Inr created" and "r = fst (onCreate lc cr lr c)"
  shows "onCreate lc cr lr c =
      (c\<lparr>state := selectNote (note_id created) (fst (refresh lc lr (state c))), saving := False\<rparr>,
       CreateNote \<lparr>data_title = str ''Untitled'', data_content = [], data_tags = []\<rparr> #
         snd (refresh lc lr (state c)))
    \<and> selectedId (state r) = Some (note_id created)
    \<and> (\<forall>ns. lr = Inr ns \<and> note_id created \<in> note_id ` set ns \<longrightarrow>
          (\<exists>n. selectedNote (state r) = Some n \<and> note_id n = note_id created \<and>
               bufferShows n (state r)))
    \<and> (lr = Inr [created] \<longrightarrow>
          notes (state r) = [created] \<and> selectedNote (state r) = Some created \<and>
          bufferShows created (state r))
    \<and> (lr = Inr [created] \<and> title created = str ''Untitled'' \<and> content created = [] \<and>
        or_list (tags created) [] = [] \<longrightarrow>
          notes (state r) = [created] \<and> editTitle (state r) = str ''Untitled'' \<and>
          editContent (state r) = [] \<and> editTags (state r) = [])"
proof -
  let ?st = "fst (refresh lc lr (state c))"
  have whole: "onCreate lc cr lr c =
      (c\<lparr>state := selectNote (note_id created) ?st, saving := False\<rparr>,
       CreateNote \<lparr>data_title = str ''Untitled'', data_content = [], data_tags = []\<rparr> #
         snd (refresh lc lr (state c)))"
    by (simp add: assms(1) onCreate_created createDefaults_def str_def)
  then have r: "state r = selectNote (note_id created) ?st"
    by (simp add: assms(2))
  have sel: "selectedId (state r) = Some (note_id created)"
    by (simp add: r)
  have found: "\<exists>n. selectedNote (state r) = Some n \<and> note_id n = note_id created \<and>
               bufferShows n (state r)"
    if "lr = Inr ns" "note_id created \<in> note_id ` set ns" for ns
  proof -
    from that have "note_id created \<in> note_id ` set (notes ?st)"
      by (simp add: notes_refresh_ok set_js_sort)
    from selectNote_shows [OF this] show ?thesis
      by (auto simp: r)
  qed
  have only: "notes (state r) = [created] \<and> selectedNote (state r) = Some created \<and>
          bufferShows created (state r)"
    if l: "lr = Inr [created]"
  proof -
    have n: "notes (state r) = [created]"
      by (simp add: r l notes_refresh_ok js_sort_single)
    from found [of "[created]"] l obtain m
      where m: "selectedNote (state r) = Some m" "bufferShows m (state r)"
      by auto
    from m(1) n sel have "m = created"
      by (simp add: selectedNote_def)
    with n m show ?thesis by simp
  qed
  have defaults: "notes (state r) = [created] \<and> editTitle (state r) = str ''Untitled'' \<and>
          editContent (state r) = [] \<and> editTags (state r) = []"
    if "lr = Inr [created]" "title created = str ''Untitled''" "content created = []"
       "or_list (tags created) [] = []"
    using only [OF that(1)] that(2-4) by (simp add: bufferShows_def)
  show ?thesis
  proof ((intro conjI allI impI; (elim conjE)?), goal_cases)
    case 1
    show ?case by (rule whole)
  next
    case 2
    show ?case by (rule sel)
  next
    case (3 ns)
    then show ?case by (rule found)
  next
    case 4
    from only [OF 4] show ?case by simp
  next
    case 5
    from only [OF 5] show ?case by simp
  next
    case 6
    from only [OF 6] show ?case by simp
  next
    case 7
    from defaults [OF 7] show ?case by simp
  next
    case 8
    from defaults [OF 8] show ?case by simp
  next
    case 9
    from defaults [OF 9] show ?case by simp
  next
    case 10
    from defaults [OF 10] show ?case by simp
  qed
qed

lemma onCreate_searching_result:
  "state (fst (onCreate lexCompare (Inr (mk_note 6 ''Untitled'' [])) (Inr [mk_note 5 ''old'' []])
      searching_component)) =
   one_note_state\<lparr>search := str ''old'', selectedId := Some 6\<rparr>"
  by (simp add: onCreate_created refresh_ok_state js_sort_def maintainSelection_def
      loadSelected_def loadEditor_def selectNote_def searching_component_def idle_def one_note_state_def
      initialState_def mk_note_def or_str_def or_list_def str_def)

text \<open>
  C7, as stated, fails when the refreshed snapshot does not hold the created note, here
  because the list request carries the search text \<^verbatim>\<open>old\<close>: the created id is selected
  and the edit buffer still shows the note that the refresh selected.
\<close>

theorem onCreate_filtered_counterexample:
  "\<not> bufferShows (mk_note 6 ''Untitled'' [])
       (state (fst (onCreate lexCompare (Inr (mk_note 6 ''Untitled'' []))
                      (Inr [mk_note 5 ''old'' []]) searching_component)))"
  unfolding onCreate_searching_result
  by (simp add: bufferShows_def one_note_state_def initialState_def mk_note_def str_def)

theorem onCreate_effect_witness:
  "notes (state (fst (onCreate lexCompare (Inr (mk_note 1 ''Untitled'' []))
      (Inr [mk_note 1 ''Untitled'' []]) (idle initialState)))) = [mk_note 1 ''Untitled'' []]
   \<and> selectedId (state (fst (onCreate lexCompare (Inr (mk_note 1 ''Untitled'' []))
      (Inr [mk_note 1 ''Untitled'' []]) (idle initialState)))) = Some 1
   \<and> editTitle (state (fst (onCreate lexCompare (Inr (mk_note 1 ''Untitled'' []))
      (Inr [mk_note 1 ''Untitled'' []]) (idle initialState)))) = str ''Untitled''
   \<and> editContent (state (fst (onCreate lexCompare (Inr (mk_note 1 ''Untitled'' []))
      (Inr [mk_note 1 ''Untitled'' []]) (idle initialState)))) = []
   \<and> editTags (state (fst (onCreate lexCompare (Inr (mk_note 1 ''Untitled'' []))
      (Inr [mk_note 1 ''Untitled'' []]) (idle initialState)))) = []"
proof -
  let ?n = "mk_note 1 ''Untitled'' []"
  let ?r = "fst (onCreate lexCompare (Inr ?n) (Inr [?n]) (idle initialState))"
  have h: "title ?n = str ''Untitled'' \<and> content ?n = [] \<and> or_list (tags ?n) [] = []"
    by (simp add: mk_note_def or_list_def str_def)
  have i: "note_id ?n = 1"
    by (simp add: mk_note_def)
  note t = onCreate_effect [OF refl refl, of lexCompare ?n "Inr [?n]" "idle initialState"]
  from t h have a: "notes (state ?r) = [?n] \<and> editTitle (state ?r) = str ''Untitled'' \<and>
          editContent (state ?r) = [] \<and> editTags (state ?r) = []"
    by blast
  from t have "selectedId (state ?r) = Some (note_id ?n)"
    by blast
  with i have b: "selectedId (state ?r) = Some 1"
    by simp
  from a b show ?thesis
    by blast
qed

lemma onSave_update_failed:
  assumes "selectedId (state c) \<noteq> None"
  shows "fst (onSave lc (Inl e) lr c) =
     c\<lparr>state := (state c)\<lparr>error := Some (message_or e (str ''Failed to save note''))\<rparr>,
       saving := False\<rparr>"
  using assms by (auto simp: onSave_def Let_def)

lemma onSave_updated:
  assumes "selectedId (state c) \<noteq> None"
  shows "fst (onSave lc (Inr u) lr c) = c\<lparr>state := fst (refresh lc lr (state c)), saving := False\<rparr>"
  using assms by (auto simp: onSave_def Let_def case_prod_beta)


section \<open>Failed remote calls\<close>

text \<open>
  C4, amended: when the list call of \<open>refresh\<close>, the create call of \<open>onCreate\<close>,
  the update call of \<open>onSave\<close> or the list call that follows it, or the delete call of
  \<open>onDelete\<close> fails, the snapshot, the selection and the edit buffer are as before;
  only the error message is set and the loading or busy flag of the handler is cleared.
  When the list call after a successful remote create or delete fails, the snapshot is
  as before and the error message is set, while the selection is the created id
  (create), or the selection and the edit buffer are cleared (delete). Every handler
  returns a state for every response: a thrown value is an input that the handler's
  catch clause turns into the error message.
\<close>

theorem failed_operation_preserves:
  "fst (refresh lc (Inl e) st) =
     st\<lparr>error := Some (message_or e (str ''Unknown error'')), loading := False\<rparr>
   \<and> fst (onCreate lc (Inl e) lr c) =
       c\<lparr>state := (state c)\<lparr>error := Some (message_or e (str ''Failed to create note''))\<rparr>,
         saving := False\<rparr>
   \<and> (selectedId (state c) \<noteq> None \<longrightarrow>
        fst (onSave lc (Inl e) lr c) =
          c\<lparr>state := (state c)\<lparr>error := Some (message_or e (str ''Failed to save note''))\<rparr>,
            saving := False\<rparr>)
   \<and> (selectedId (state c) \<noteq> None \<longrightarrow>
        fst (onSave lc (Inr u) (Inl e) c) =
          c\<lparr>state := (state c)\<lparr>error := Some (message_or e (str ''Unknown error'')),
                               loading := False\<rparr>,
            saving := False\<rparr>)
   \<and> (selectedId (state c) \<noteq> None \<longrightarrow>
        fst (onDelete lc True (Inl e) lr c) =
          c\<lparr>state := (state c)\<lparr>error := Some (message_or e (str ''Failed to delete note''))\<rparr>,
            deleting := False\<rparr>)
   \<and> fst (onCreate lc (Inr n) (Inl e) c) =
       c\<lparr>state := selectNote (note_id n)
                    ((state c)\<lparr>error := Some (message_or e (str ''Unknown error'')),
                               loading := False\<rparr>),
         saving := False\<rparr>
   \<and> (selectedId (state c) \<noteq> None \<longrightarrow>
        fst (onDelete lc True (Inr v) (Inl e) c) =
          c\<lparr>state := (state c)\<lparr>selectedId := None, editTitle := [], editContent := [],
                               editTags := [],
                               error := Some (message_or e (str ''Unknown error'')),
                               loading := False\<rparr>,
            deleting := False\<rparr>)"
proof ((intro conjI impI), goal_cases)
  case 1
  show ?case by (simp add: refresh_failed)
next
  case 2
  show ?case by (simp add: onCreate_failed)
next
  case 3
  then show ?case by (rule onSave_update_failed)
next
  case 4
  then show ?case by (simp add: onSave_updated refresh_failed)
next
  case 5
  then obtain i where "selectedId (state c) = Some i" by blast
  then show ?case by (simp add: onDelete_failed)
next
  case 6
  show ?case by (simp add: onCreate_created refresh_failed)
next
  case 7
  then obtain i where "selectedId (state c) = Some i" by blast
  then show ?case by (simp add: onDelete_confirmed refresh_failed)
qed

theorem failed_operation_preserves_witness:
  "fst (onSave lexCompare (Inl (Some (str ''Failed to update note: 500''))) (Inr []) one_note_component) =
     one_note_component\<lparr>state := (state one_note_component)\<lparr>error := Some (str ''Failed to update note: 500'')\<rparr>\<rparr>
   \<and> fst (onDelete lexCompare True (Inl None) (Inr []) one_note_component) =
     one_note_component\<lparr>state := (state one_note_component)\<lparr>error := Some (str ''Failed to delete note'')\<rparr>\<rparr>"
proof -
  have sel: "selectedId (state one_note_component) \<noteq> None"
    by (simp add: one_note_component_def idle_def one_note_state_def)
  have fl: "one_note_component\<lparr>saving := False\<rparr> = one_note_component"
    "one_note_component\<lparr>deleting := False\<rparr> = one_note_component"
    by (simp_all add: one_note_component_def idle_def)
  note t = failed_operation_preserves [of lexCompare _ _ "Inr []" one_note_component]
  from t [of "Some (str ''Failed to update note: 500'')"] sel
  have a: "fst (onSave lexCompare (Inl (Some (str ''Failed to update note: 500''))) (Inr []) one_note_component) =
      one_note_component\<lparr>state := (state one_note_component)\<lparr>error :=
          Some (message_or (Some (str ''Failed to update note: 500'')) (str ''Failed to save note''))\<rparr>,
        saving := False\<rparr>"
    by blast
  from t [of None] sel
  have b: "fst (onDelete lexCompare True (Inl None) (Inr []) one_note_component) =
      one_note_component\<lparr>state := (state one_note_component)\<lparr>error :=
          Some (message_or None (str ''Failed to delete note''))\<rparr>,
        deleting := False\<rparr>"
    by blast
  have c: "x\<lparr>state := y, saving := False\<rparr> = (x\<lparr>saving := False\<rparr>)\<lparr>state := y\<rparr>"
    "x\<lparr>state := y, deleting := False\<rparr> = (x\<lparr>deleting := False\<rparr>)\<lparr>state := y\<rparr>"
    for x :: Component and y
    by simp_all
  from a b show ?thesis
    by (simp only: c fl message_or_def option.case)
qed

text \<open>
  C4, as stated, fails for a delete whose remote delete succeeds and whose list call
  fails: the selection is cleared although a remote call of the operation failed.
\<close>

theorem delete_then_failed_refresh_counterexample:
  "selectedId (state (fst (onDelete lexCompare True (Inr ())
       (Inl (Some (str ''Failed to list notes: 500''))) one_note_component))) \<noteq>
   selectedId (state one_note_component)"
proof -
  have sel: "selectedId (state one_note_component) = Some 5"
    by (simp add: one_note_component_def idle_def one_note_state_def)
  show ?thesis
    by (simp add: onDelete_confirmed [OF sel] refresh_failed sel)
qed



section \<open>The error message\<close>




end
